theory Spec2Isabelle
  imports Main
begin

section \<open>Memory, pointers and outcomes\<close>

text \<open>
  A pointer \<^verbatim>\<open>T*\<close> is a storage block together with an element offset into it, so
  that \<^verbatim>\<open>p + n\<close> is arithmetic on the offset. Block 0 is never handed out: the
  pointer into block 0 at offset 0 is \<^verbatim>\<open>nullptr\<close>.
\<close>

record ptr =
  blk :: nat
  ofs :: nat

definition nullptr :: ptr where
  "nullptr = \<lparr>blk = 0, ofs = 0\<rparr>"

definition ptr_add :: "ptr \<Rightarrow> nat \<Rightarrow> ptr" where
  "ptr_add p n = p\<lparr>ofs := ofs p + n\<rparr>"

text \<open>
  The calls that reach the allocator are recorded, in order. A slot of a block is
  \<open>None\<close> while it is raw storage and \<open>Some x\<close> while it holds a constructed element
  of value \<open>x\<close>.
\<close>

datatype event = Allocate ptr nat | Deallocate ptr nat | Construct ptr | Destroy ptr

record 'a memory =
  blocks :: "nat \<Rightarrow> 'a option list option"
  n_alloc :: nat
  n_ctor :: nat
  log :: "event list"

definition fresh_memory :: "'a memory" where
  "fresh_memory = \<lparr>blocks = (\<lambda>_. None), n_alloc = 0, n_ctor = 0, log = []\<rparr>"

text \<open>
  What the container does not decide is a parameter: the properties of the element type
  \<^verbatim>\<open>T\<close> that \<^verbatim>\<open>std::move_if_noexcept\<close> inspects, the value a default-constructed
  element has, the state a moved-from element is left in, and which calls fail. The
  \<open>k\<close>-th call of \<^verbatim>\<open>::operator new\<close> throws when \<open>alloc_fails k\<close>, and the \<open>k\<close>-th
  constructor call of \<^verbatim>\<open>T\<close> throws when \<open>ctor_fails k\<close> (unless that constructor is
  \<^verbatim>\<open>noexcept\<close>); every pattern of failures is one such pair of schedules.
  \<open>sizeof_T\<close> is \<^verbatim>\<open>sizeof(T)\<close>.
\<close>

record 'a env =
  is_nothrow_move_constructible :: bool
  is_copy_constructible :: bool
  moved_from :: "'a \<Rightarrow> 'a"
  default_value :: 'a
  sizeof_T :: nat
  alloc_fails :: "nat \<Rightarrow> bool"
  ctor_fails :: "nat \<Rightarrow> bool"

datatype exn = Bad_alloc | Ctor_failure

text \<open>
  A call returns (\<open>Ok\<close>), leaves by an exception with the state it leaves behind
  (\<open>Throw\<close>), or has undefined behaviour (\<open>UB\<close>): an access outside the storage of a
  block, to a released block, or to an element that is not constructed.
\<close>

datatype ('a, 's) outcome = Ok 'a | Throw exn 's | UB

definition and_then :: "('a, 's) outcome \<Rightarrow> ('a \<Rightarrow> ('b, 's) outcome) \<Rightarrow> ('b, 's) outcome" where
  "and_then r f = (case r of Ok a \<Rightarrow> f a | Throw e s \<Rightarrow> Throw e s | UB \<Rightarrow> UB)"

definition slot_at :: "'a memory \<Rightarrow> ptr \<Rightarrow> 'a option" where
  "slot_at m p =
     (case blocks m (blk p) of
        None \<Rightarrow> None
      | Some slots \<Rightarrow> if ofs p < length slots then slots ! ofs p else None)"

text \<open>
  An argument that the source takes by reference (\<^verbatim>\<open>const T&\<close>, \<^verbatim>\<open>Args&&...\<close>) is a
  reference in the model too: to an object outside the storage of any vector, given by
  its value, or to a slot of the memory. It is read when the element is constructed from
  it, and reading a reference to a slot that is released or not constructed is undefined.
\<close>

datatype 'a arg = Val 'a | At ptr

definition read_arg :: "'a memory \<Rightarrow> 'a arg \<Rightarrow> 'a option" where
  "read_arg m a = (case a of Val x \<Rightarrow> Some x | At p \<Rightarrow> slot_at m p)"

section \<open>SimpleAllocator\<close>

text \<open>
  \<^verbatim>\<open>max_size()\<close> is \<^verbatim>\<open>std::numeric_limits<size_type>::max() / sizeof(T)\<close>, with a
  \<^verbatim>\<open>size_t\<close> of 64 bits.
\<close>

definition SIZE_MAX :: nat where
  "SIZE_MAX = 2 ^ 64 - 1"

definition max_size :: "'a env \<Rightarrow> nat" where
  "max_size E = SIZE_MAX div sizeof_T E"

text \<open>
  \<^verbatim>\<open>allocate(n)\<close> is \<^verbatim>\<open>::operator new(n * sizeof(T))\<close>: a fresh block of \<open>n\<close> raw
  slots, or \<^verbatim>\<open>std::bad_alloc\<close>. Sizes are natural numbers, and the product is the
  one of the source for \<open>n \<le> max_size\<close>: above it the product of the source wraps in
  \<^verbatim>\<open>size_t\<close> and the block is smaller than \<open>n\<close> slots, which this definition does not
  follow. A count that a caller supplies is bounded by \<open>max_size\<close> wherever a statement
  below depends on the block.
\<close>

definition allocate :: "'a env \<Rightarrow> nat \<Rightarrow> 'a memory \<Rightarrow> (ptr \<times> 'a memory, 'a memory) outcome" where
  "allocate E n m =
     (if alloc_fails E (n_alloc m) then Throw Bad_alloc (m\<lparr>n_alloc := Suc (n_alloc m)\<rparr>)
      else let p = \<lparr>blk = Suc (n_alloc m), ofs = 0\<rparr> in
        Ok (p, m\<lparr>blocks := (blocks m)(blk p := Some (replicate n None)),
                  n_alloc := Suc (n_alloc m),
                  log := log m @ [Allocate p n]\<rparr>))"

text \<open>
  \<^verbatim>\<open>deallocate(ptr, n)\<close> is \<^verbatim>\<open>::operator delete(ptr)\<close>: nothing for \<^verbatim>\<open>nullptr\<close>,
  the release of the block that \<open>ptr\<close> is the start of otherwise. It runs no destructor:
  elements still constructed in the block are gone without having been destroyed.
\<close>

definition deallocate :: "ptr \<Rightarrow> nat \<Rightarrow> 'a memory \<Rightarrow> 'a memory option" where
  "deallocate p n m =
     (if p = nullptr then Some m
      else case blocks m (blk p) of
        None \<Rightarrow> None
      | Some slots \<Rightarrow>
          if ofs p \<noteq> 0 then None
          else Some (m\<lparr>blocks := (blocks m)(blk p := None),
                       log := log m @ [Deallocate p n]\<rparr>))"

text \<open>
  \<^verbatim>\<open>construct(ptr, args...)\<close> is \<^verbatim>\<open>::new(ptr) T(args...)\<close>; \<open>x\<close> is the value the
  constructor gives the new element and \<open>nothrow\<close> says that the constructor selected
  by the arguments is \<^verbatim>\<open>noexcept\<close>.
\<close>

definition construct :: "'a env \<Rightarrow> bool \<Rightarrow> ptr \<Rightarrow> 'a \<Rightarrow> 'a memory \<Rightarrow> ('a memory, 'a memory) outcome" where
  "construct E nothrow p x m =
     (case blocks m (blk p) of
        None \<Rightarrow> UB
      | Some slots \<Rightarrow>
          if length slots \<le> ofs p then UB
          else if \<not> nothrow \<and> ctor_fails E (n_ctor m)
          then Throw Ctor_failure (m\<lparr>n_ctor := Suc (n_ctor m)\<rparr>)
          else Ok (m\<lparr>blocks := (blocks m)(blk p := Some (slots[ofs p := Some x])),
                     n_ctor := Suc (n_ctor m),
                     log := log m @ [Construct p]\<rparr>))"

text \<open>\<^verbatim>\<open>destroy(ptr)\<close> is \<^verbatim>\<open>ptr->~T()\<close>; destructors do not throw.\<close>

definition destroy :: "ptr \<Rightarrow> 'a memory \<Rightarrow> 'a memory option" where
  "destroy p m =
     (case blocks m (blk p) of
        None \<Rightarrow> None
      | Some slots \<Rightarrow>
          if ofs p < length slots \<and> slots ! ofs p \<noteq> None
          then Some (m\<lparr>blocks := (blocks m)(blk p := Some (slots[ofs p := None])),
                       log := log m @ [Destroy p]\<rparr>)
          else None)"

text \<open>
  \<^verbatim>\<open>construct(dst, std::move_if_noexcept(*src))\<close>: the element at \<open>src\<close> is
  copied when the move constructor of \<^verbatim>\<open>T\<close> may throw and \<^verbatim>\<open>T\<close> has a copy
  constructor, and moved from otherwise. A move leaves the source constructed, in its
  moved-from state.
\<close>

definition construct_move_if_noexcept ::
    "'a env \<Rightarrow> ptr \<Rightarrow> ptr \<Rightarrow> 'a memory \<Rightarrow> ('a memory, 'a memory) outcome" where
  "construct_move_if_noexcept E dst src m =
     (case slot_at m src of
        None \<Rightarrow> UB
      | Some x \<Rightarrow>
          if \<not> is_nothrow_move_constructible E \<and> is_copy_constructible E
          then construct E False dst x m
          else
            (case construct E (is_nothrow_move_constructible E) dst x m of
               Ok m1 \<Rightarrow>
                 (case blocks m1 (blk src) of
                    None \<Rightarrow> UB
                  | Some slots \<Rightarrow>
                      Ok (m1\<lparr>blocks := (blocks m1)(blk src :=
                                 Some (slots[ofs src := Some (moved_from E x)]))\<rparr>))
             | Throw e m1 \<Rightarrow> Throw e m1
             | UB \<Rightarrow> UB))"

section \<open>Vector\<close>

text \<open>
  The fields \<^verbatim>\<open>data_\<close>, \<^verbatim>\<open>size_\<close> and \<^verbatim>\<open>capacity_\<close>. The allocator member has no
  state, and \<^verbatim>\<open>SimpleAllocator\<close> declares no propagation trait, so that no assignment
  or swap touches it.
\<close>

record vector =
  m_data :: ptr
  m_size :: nat
  m_capacity :: nat

subsection \<open>The loops\<close>

text \<open>\<^verbatim>\<open>for (i = ...; i < n; ++i) destroy(p + i)\<close>\<close>

function destroy_loop :: "ptr \<Rightarrow> nat \<Rightarrow> nat \<Rightarrow> 'a memory \<Rightarrow> 'a memory option" where
  "destroy_loop p i n m =
     (if i < n then
        (case destroy (ptr_add p i) m of
           None \<Rightarrow> None
         | Some m1 \<Rightarrow> destroy_loop p (Suc i) n m1)
      else Some m)"
  by pat_completeness auto
termination
  by (relation "measure (\<lambda>(p, i, n, m). n - i)") auto

text \<open>\<^verbatim>\<open>for (i = ...; i < n; ++i) construct(p + i, value)\<close>, or
  \<^verbatim>\<open>construct(p + i)\<close> with the argument a default-constructed value; each
  construction reads the argument.\<close>

function construct_loop ::
    "'a env \<Rightarrow> ptr \<Rightarrow> 'a arg \<Rightarrow> nat \<Rightarrow> nat \<Rightarrow> 'a memory \<Rightarrow> ('a memory, 'a memory) outcome" where
  "construct_loop E p a i n m =
     (if i < n then
        (case read_arg m a of
           None \<Rightarrow> UB
         | Some x \<Rightarrow>
             (case construct E False (ptr_add p i) x m of
                Ok m1 \<Rightarrow> construct_loop E p a (Suc i) n m1
              | Throw e m1 \<Rightarrow> Throw e m1
              | UB \<Rightarrow> UB))
      else Ok m)"
  by pat_completeness auto
termination
  by (relation "measure (\<lambda>(E, p, a, i, n, m). n - i)") auto

text \<open>\<^verbatim>\<open>for (i = 0; i < size_; ++i) construct(data_ + i, other.data_[i])\<close>\<close>

function copy_loop ::
    "'a env \<Rightarrow> ptr \<Rightarrow> ptr \<Rightarrow> nat \<Rightarrow> nat \<Rightarrow> 'a memory \<Rightarrow> ('a memory, 'a memory) outcome" where
  "copy_loop E p other_data i n m =
     (if i < n then
        (case slot_at m (ptr_add other_data i) of
           None \<Rightarrow> UB
         | Some x \<Rightarrow>
             (case construct E False (ptr_add p i) x m of
                Ok m1 \<Rightarrow> copy_loop E p other_data (Suc i) n m1
              | Throw e m1 \<Rightarrow> Throw e m1
              | UB \<Rightarrow> UB))
      else Ok m)"
  by pat_completeness auto
termination
  by (relation "measure (\<lambda>(E, p, q, i, n, m). n - i)") auto

text \<open>
  The first loop of \<^verbatim>\<open>reserve_more\<close>; an exception leaves with the value of
  \<^verbatim>\<open>constructed\<close>, the number of elements transferred so far.
\<close>

function transfer_loop ::
    "'a env \<Rightarrow> ptr \<Rightarrow> ptr \<Rightarrow> nat \<Rightarrow> nat \<Rightarrow> 'a memory \<Rightarrow> ('a memory, nat \<times> 'a memory) outcome" where
  "transfer_loop E new_data old_data i n m =
     (if i < n then
        (case construct_move_if_noexcept E (ptr_add new_data i) (ptr_add old_data i) m of
           Ok m1 \<Rightarrow> transfer_loop E new_data old_data (Suc i) n m1
         | Throw e m1 \<Rightarrow> Throw e (i, m1)
         | UB \<Rightarrow> UB)
      else Ok m)"
  by pat_completeness auto
termination
  by (relation "measure (\<lambda>(E, p, q, i, n, m). n - i)") auto

subsection \<open>Reallocation\<close>

definition reserve_more ::
    "'a env \<Rightarrow> nat \<Rightarrow> vector \<Rightarrow> 'a memory \<Rightarrow> (vector \<times> 'a memory, vector \<times> 'a memory) outcome" where
  "reserve_more E new_capacity v m =
     (case allocate E new_capacity m of
        Throw e m1 \<Rightarrow> Throw e (v, m1)
      | UB \<Rightarrow> UB
      | Ok (new_data, m1) \<Rightarrow>
          (case transfer_loop E new_data (m_data v) 0 (m_size v) m1 of
             Ok m2 \<Rightarrow>
               (case destroy_loop (m_data v) 0 (m_size v) m2 of
                  None \<Rightarrow> UB
                | Some m3 \<Rightarrow>
                    (case deallocate (m_data v) (m_capacity v) m3 of
                       None \<Rightarrow> UB
                     | Some m4 \<Rightarrow>
                         Ok (v\<lparr>m_data := new_data, m_capacity := new_capacity\<rparr>, m4)))
           | Throw e (constructed, m2) \<Rightarrow>
               (case destroy_loop new_data 0 constructed m2 of
                  None \<Rightarrow> UB
                | Some m3 \<Rightarrow>
                    (case deallocate new_data new_capacity m3 of
                       None \<Rightarrow> UB
                     | Some m4 \<Rightarrow> Throw e (v, m4)))
           | UB \<Rightarrow> UB))"

subsection \<open>Constructors, destructor, assignment\<close>

text \<open>\<^verbatim>\<open>Vector()\<close> touches no memory.\<close>

definition Vector :: vector where
  "Vector = \<lparr>m_data = nullptr, m_size = 0, m_capacity = 0\<rparr>"

text \<open>
  \<^verbatim>\<open>Vector(size_t n)\<close> and \<^verbatim>\<open>Vector(size_t n, const T& value)\<close>. An exception out
  of a constructor leaves no object: only the memory remains.
\<close>

definition Vector_n :: "'a env \<Rightarrow> nat \<Rightarrow> 'a memory \<Rightarrow> (vector \<times> 'a memory, 'a memory) outcome" where
  "Vector_n E n m =
     (if n > 0 then
        (case allocate E n m of
           Throw e m1 \<Rightarrow> Throw e m1
         | UB \<Rightarrow> UB
         | Ok (p, m1) \<Rightarrow>
             (case construct_loop E p (Val (default_value E)) 0 n m1 of
                Ok m2 \<Rightarrow> Ok (\<lparr>m_data = p, m_size = n, m_capacity = n\<rparr>, m2)
              | Throw e m2 \<Rightarrow>
                  (case deallocate p n m2 of None \<Rightarrow> UB | Some m3 \<Rightarrow> Throw e m3)
              | UB \<Rightarrow> UB))
      else Ok (\<lparr>m_data = nullptr, m_size = n, m_capacity = n\<rparr>, m))"

definition Vector_n_value ::
    "'a env \<Rightarrow> nat \<Rightarrow> 'a arg \<Rightarrow> 'a memory \<Rightarrow> (vector \<times> 'a memory, 'a memory) outcome" where
  "Vector_n_value E n val m =
     (if n > 0 then
        (case allocate E n m of
           Throw e m1 \<Rightarrow> Throw e m1
         | UB \<Rightarrow> UB
         | Ok (p, m1) \<Rightarrow>
             (case construct_loop E p val 0 n m1 of
                Ok m2 \<Rightarrow> Ok (\<lparr>m_data = p, m_size = n, m_capacity = n\<rparr>, m2)
              | Throw e m2 \<Rightarrow>
                  (case deallocate p n m2 of None \<Rightarrow> UB | Some m3 \<Rightarrow> Throw e m3)
              | UB \<Rightarrow> UB))
      else Ok (\<lparr>m_data = nullptr, m_size = n, m_capacity = n\<rparr>, m))"

text \<open>\<^verbatim>\<open>Vector(const Vector& other)\<close>: the copy has capacity \<^verbatim>\<open>other.size_\<close>.\<close>

definition Vector_copy ::
    "'a env \<Rightarrow> vector \<Rightarrow> 'a memory \<Rightarrow> (vector \<times> 'a memory, 'a memory) outcome" where
  "Vector_copy E other m =
     (if m_size other > 0 then
        (case allocate E (m_size other) m of
           Throw e m1 \<Rightarrow> Throw e m1
         | UB \<Rightarrow> UB
         | Ok (p, m1) \<Rightarrow>
             (case copy_loop E p (m_data other) 0 (m_size other) m1 of
                Ok m2 \<Rightarrow>
                  Ok (\<lparr>m_data = p, m_size = m_size other, m_capacity = m_size other\<rparr>, m2)
              | Throw e m2 \<Rightarrow>
                  (case deallocate p (m_size other) m2 of
                     None \<Rightarrow> UB
                   | Some m3 \<Rightarrow> Throw e m3)
              | UB \<Rightarrow> UB))
      else Ok (\<lparr>m_data = nullptr, m_size = m_size other, m_capacity = m_size other\<rparr>, m))"

text \<open>\<^verbatim>\<open>Vector(Vector&& other)\<close> returns the new object and what is left of \<open>other\<close>.\<close>

definition Vector_move :: "vector \<Rightarrow> vector \<times> vector" where
  "Vector_move other =
     (\<lparr>m_data = m_data other, m_size = m_size other, m_capacity = m_capacity other\<rparr>,
      other\<lparr>m_data := nullptr, m_size := 0, m_capacity := 0\<rparr>)"

definition destructor :: "vector \<Rightarrow> 'a memory \<Rightarrow> 'a memory option" where
  "destructor v m =
     (case destroy_loop (m_data v) 0 (m_size v) m of
        None \<Rightarrow> None
      | Some m1 \<Rightarrow> deallocate (m_data v) (m_capacity v) m1)"

text \<open>
  \<^verbatim>\<open>operator=(const Vector& other)\<close>: \<open>other\<close> is only read, and only by the
  construction of \<^verbatim>\<open>tmp\<close>, so its fields are passed by value; for an assignment of a
  vector to itself they are the fields of the target. The three swaps leave the target
  with the fields of \<^verbatim>\<open>tmp\<close> and \<^verbatim>\<open>tmp\<close> with those of the target, and \<^verbatim>\<open>tmp\<close> is
  destroyed on return.
\<close>

definition copy_assign ::
    "'a env \<Rightarrow> vector \<Rightarrow> vector \<Rightarrow> 'a memory \<Rightarrow> (vector \<times> 'a memory, vector \<times> 'a memory) outcome" where
  "copy_assign E v other m =
     (case Vector_copy E other m of
        Throw e m1 \<Rightarrow> Throw e (v, m1)
      | UB \<Rightarrow> UB
      | Ok (tmp, m1) \<Rightarrow>
          (let v1 = v\<lparr>m_data := m_data tmp, m_size := m_size tmp, m_capacity := m_capacity tmp\<rparr>;
               tmp1 = tmp\<lparr>m_data := m_data v, m_size := m_size v, m_capacity := m_capacity v\<rparr>
           in case destructor tmp1 m1 of
                None \<Rightarrow> UB
              | Some m2 \<Rightarrow> Ok (v1, m2)))"

subsection \<open>Modifiers and capacity\<close>

text \<open>
  \<^verbatim>\<open>static_cast<size_t>(capacity_ * 1.5)\<close> is the product in \<^verbatim>\<open>double\<close>, truncated.
  It is \<open>capacity_ * 3 div 2\<close> while the product is exact in \<^verbatim>\<open>double\<close>, which it is
  for \<open>capacity_ * 3 < 2 ^ 53\<close>; the definition does not follow the rounding of the
  source above that.

  The argument is forwarded as a reference and read by the construction, after the
  reallocation: a reference to an element of the vector itself then refers to storage
  that \<^verbatim>\<open>reserve_more\<close> has destroyed and released.
\<close>

definition emplace_back ::
    "'a env \<Rightarrow> 'a arg \<Rightarrow> vector \<Rightarrow> 'a memory \<Rightarrow> (vector \<times> 'a memory, vector \<times> 'a memory) outcome" where
  "emplace_back E a v m =
     (case (if m_size v = m_capacity v
            then reserve_more E (if m_capacity v = 0 then 1 else m_capacity v * 3 div 2) v m
            else Ok (v, m)) of
        Throw e s \<Rightarrow> Throw e s
      | UB \<Rightarrow> UB
      | Ok (v1, m1) \<Rightarrow>
          (case read_arg m1 a of
             None \<Rightarrow> UB
           | Some x \<Rightarrow>
               (case construct E False (ptr_add (m_data v1) (m_size v1)) x m1 of
                  Throw e m2 \<Rightarrow> Throw e (v1, m2)
                | UB \<Rightarrow> UB
                | Ok m2 \<Rightarrow> Ok (v1\<lparr>m_size := m_size v1 + 1\<rparr>, m2))))"

definition push_back ::
    "'a env \<Rightarrow> 'a arg \<Rightarrow> vector \<Rightarrow> 'a memory \<Rightarrow> (vector \<times> 'a memory, vector \<times> 'a memory) outcome" where
  "push_back E val v m = emplace_back E val v m"

definition reserve ::
    "'a env \<Rightarrow> nat \<Rightarrow> vector \<Rightarrow> 'a memory \<Rightarrow> (vector \<times> 'a memory, vector \<times> 'a memory) outcome" where
  "reserve E new_capacity v m =
     (if new_capacity > m_capacity v then reserve_more E new_capacity v m else Ok (v, m))"

definition shrink_to_fit ::
    "'a env \<Rightarrow> vector \<Rightarrow> 'a memory \<Rightarrow> (vector \<times> 'a memory, vector \<times> 'a memory) outcome" where
  "shrink_to_fit E v m =
     (if m_capacity v > m_size v then
        (if m_size v = 0 then
           (case deallocate (m_data v) (m_capacity v) m of
              None \<Rightarrow> UB
            | Some m1 \<Rightarrow> Ok (v\<lparr>m_data := nullptr, m_capacity := 0\<rparr>, m1))
         else reserve_more E (m_size v) v m)
      else Ok (v, m))"

text \<open>
  \<^verbatim>\<open>resize(count)\<close> and \<^verbatim>\<open>resize(count, value)\<close> differ in what is constructed: a
  default value, or a copy of \<^verbatim>\<open>value\<close>, a reference that is read after the
  reallocation.
\<close>

definition resize_with ::
    "'a env \<Rightarrow> 'a arg \<Rightarrow> nat \<Rightarrow> vector \<Rightarrow> 'a memory \<Rightarrow> (vector \<times> 'a memory, vector \<times> 'a memory) outcome" where
  "resize_with E x count v m =
     (if count < m_size v then
        (case destroy_loop (m_data v) count (m_size v) m of
           None \<Rightarrow> UB
         | Some m1 \<Rightarrow> Ok (v\<lparr>m_size := count\<rparr>, m1))
      else if count > m_size v then
        (case (if count > m_capacity v then reserve_more E count v m else Ok (v, m)) of
           Throw e s \<Rightarrow> Throw e s
         | UB \<Rightarrow> UB
         | Ok (v1, m1) \<Rightarrow>
             (case construct_loop E (m_data v1) x (m_size v1) count m1 of
                Throw e m2 \<Rightarrow> Throw e (v1, m2)
              | UB \<Rightarrow> UB
              | Ok m2 \<Rightarrow> Ok (v1\<lparr>m_size := count\<rparr>, m2)))
      else Ok (v, m))"

definition resize ::
    "'a env \<Rightarrow> nat \<Rightarrow> vector \<Rightarrow> 'a memory \<Rightarrow> (vector \<times> 'a memory, vector \<times> 'a memory) outcome" where
  "resize E count v m = resize_with E (Val (default_value E)) count v m"

definition resize_value ::
    "'a env \<Rightarrow> nat \<Rightarrow> 'a arg \<Rightarrow> vector \<Rightarrow> 'a memory \<Rightarrow> (vector \<times> 'a memory, vector \<times> 'a memory) outcome" where
  "resize_value E count val v m = resize_with E val count v m"

subsection \<open>Iterators\<close>

datatype Iterator = Iterator (ptr_of: ptr)

datatype ConstIterator = ConstIterator (cptr_of: ptr)

definition Vector_begin :: "vector \<Rightarrow> Iterator" where
  "Vector_begin v = Iterator (m_data v)"

definition Vector_end :: "vector \<Rightarrow> Iterator" where
  "Vector_end v = Iterator (ptr_add (m_data v) (m_size v))"

definition cbegin :: "vector \<Rightarrow> ConstIterator" where
  "cbegin v = ConstIterator (m_data v)"

definition cend :: "vector \<Rightarrow> ConstIterator" where
  "cend v = ConstIterator (m_data v)"

text \<open>\<^verbatim>\<open>ConstIterator::operator==\<close> and \<^verbatim>\<open>operator!=\<close> against either flavour.\<close>

definition ConstIterator_eq :: "ConstIterator \<Rightarrow> ConstIterator \<Rightarrow> bool" where
  "ConstIterator_eq a b = (cptr_of a = cptr_of b)"

definition ConstIterator_eq_Iterator :: "ConstIterator \<Rightarrow> Iterator \<Rightarrow> bool" where
  "ConstIterator_eq_Iterator a b = (cptr_of a = ptr_of b)"

definition ConstIterator_ne_Iterator :: "ConstIterator \<Rightarrow> Iterator \<Rightarrow> bool" where
  "ConstIterator_ne_Iterator a b = (cptr_of a \<noteq> ptr_of b)"

section \<open>The state of a container\<close>

text \<open>The contents of the slots \<open>[0, size_)\<close>, read through \<^verbatim>\<open>data_\<close>.\<close>

definition elems :: "vector \<Rightarrow> 'a memory \<Rightarrow> 'a option list" where
  "elems v m =
     (case blocks m (blk (m_data v)) of
        None \<Rightarrow> []
      | Some slots \<Rightarrow> take (m_size v) slots)"

text \<open>
  The class invariant: the length is at most the capacity, \<^verbatim>\<open>data_\<close> is null when the
  capacity is 0 and the start of a block of \<^verbatim>\<open>capacity_\<close> slots otherwise, and exactly
  the slots below the length are constructed.
\<close>

definition invariant :: "vector \<Rightarrow> 'a memory \<Rightarrow> bool" where
  "invariant v m \<longleftrightarrow>
     m_size v \<le> m_capacity v \<and> ofs (m_data v) = 0 \<and>
     (case blocks m (blk (m_data v)) of
        None \<Rightarrow> m_capacity v = 0 \<and> blk (m_data v) = 0
      | Some slots \<Rightarrow>
          0 < m_capacity v \<and> length slots = m_capacity v \<and>
          (\<forall>i < m_capacity v. (slots ! i \<noteq> None) = (i < m_size v)))"

text \<open>What the allocator maintains: block 0 and the blocks not handed out yet are free.\<close>

definition memory_ok :: "'a memory \<Rightarrow> bool" where
  "memory_ok m \<longleftrightarrow> blocks m 0 = None \<and> (\<forall>b > n_alloc m. blocks m b = None)"

definition wf :: "vector \<Rightarrow> 'a memory \<Rightarrow> bool" where
  "wf v m \<longleftrightarrow> memory_ok m \<and> invariant v m"

section \<open>Concrete element types\<close>

text \<open>
  \<^verbatim>\<open>T = int\<close> with nothing failing; the same with the constructor call number \<open>k\<close>
  throwing; and a move-only type whose move constructor is not \<^verbatim>\<open>noexcept\<close>, leaves
  0 in the object moved from, and throws at call number \<open>k\<close>.
\<close>

definition int_env :: "int env" where
  "int_env = \<lparr>is_nothrow_move_constructible = True, is_copy_constructible = True,
              moved_from = (\<lambda>x. x), default_value = 0, sizeof_T = 4,
              alloc_fails = (\<lambda>_. False), ctor_fails = (\<lambda>_. False)\<rparr>"

definition throwing_copy_env :: "nat \<Rightarrow> int env" where
  "throwing_copy_env k =
     int_env\<lparr>is_nothrow_move_constructible := False, ctor_fails := (\<lambda>j. j = k)\<rparr>"

definition move_only_env :: "nat \<Rightarrow> int env" where
  "move_only_env k =
     int_env\<lparr>is_nothrow_move_constructible := False, is_copy_constructible := False,
             moved_from := (\<lambda>_. 0), ctor_fails := (\<lambda>j. j = k)\<rparr>"

text \<open>A vector holding 1 and 2 in a block of two slots, as two appends after
  \<^verbatim>\<open>reserve(2)\<close> leave it.\<close>

definition memory_12 :: "int memory" where
  "memory_12 = \<lparr>blocks = (\<lambda>_. None)(1 := Some [Some 1, Some 2]), n_alloc = 1, n_ctor = 2,
                 log = [Allocate \<lparr>blk = 1, ofs = 0\<rparr> 2, Construct \<lparr>blk = 1, ofs = 0\<rparr>,
                        Construct \<lparr>blk = 1, ofs = 1\<rparr>]\<rparr>"

definition vector_12 :: vector where
  "vector_12 = \<lparr>m_data = \<lparr>blk = 1, ofs = 0\<rparr>, m_size = 2, m_capacity = 2\<rparr>"

text \<open>The same elements in a block of four slots.\<close>

definition memory_12_slack :: "int memory" where
  "memory_12_slack = memory_12\<lparr>blocks := (\<lambda>_. None)(1 := Some [Some 1, Some 2, None, None])\<rparr>"

definition vector_12_slack :: vector where
  "vector_12_slack = vector_12\<lparr>m_capacity := 4\<rparr>"

section \<open>Evaluation and basic facts\<close>

declare destroy_loop.simps [simp del] construct_loop.simps [simp del]
  copy_loop.simps [simp del] transfer_loop.simps [simp del]

lemmas eval_defs =
  and_then_def push_back_def emplace_back_def reserve_def reserve_more_def shrink_to_fit_def
  resize_def resize_value_def resize_with_def copy_assign_def Vector_copy_def destructor_def
  Vector_n_def Vector_n_value_def Vector_def
  allocate_def deallocate_def construct_def destroy_def construct_move_if_noexcept_def
  slot_at_def read_arg_def ptr_add_def nullptr_def fresh_memory_def
  int_env_def throwing_copy_env_def move_only_env_def memory_12_def vector_12_def
  destroy_loop.simps construct_loop.simps copy_loop.simps transfer_loop.simps Let_def

lemma vector_12_reached:
  "and_then (and_then (reserve int_env 2 Vector fresh_memory)
      (\<lambda>(v, m). push_back int_env (Val 1) v m)) (\<lambda>(v, m). push_back int_env (Val 2) v m) =
   Ok (vector_12, memory_12)"
  by (simp add: eval_defs numeral_2_eq_2)

lemma wf_vector_12: "wf vector_12 memory_12"
  by (simp add: wf_def memory_ok_def invariant_def vector_12_def memory_12_def All_less_Suc
      numeral_2_eq_2)

lemma wf_vector_12_slack: "wf vector_12_slack memory_12_slack"
  by (simp add: wf_def memory_ok_def invariant_def vector_12_def memory_12_def All_less_Suc
      vector_12_slack_def memory_12_slack_def eval_nat_numeral)

lemma ptr_add_blk [simp]: "blk (ptr_add p i) = blk p"
  by (simp add: ptr_add_def)

lemma ptr_add_ofs [simp]: "ofs (ptr_add p i) = ofs p + i"
  by (simp add: ptr_add_def)

section \<open>The loops and the reallocation on a well-formed state\<close>

text \<open>
  Destroying the constructed slots \<open>[i, n)\<close> of a block succeeds and changes that block
  only.
\<close>

lemma destroy_loop_blocks:
  assumes "blocks m (blk p) = Some slots" and "ofs p = 0" and "n \<le> length slots"
    and "\<forall>j. i \<le> j \<and> j < n \<longrightarrow> slots ! j \<noteq> None"
  shows "\<exists>m' slots'. destroy_loop p i n m = Some m' \<and>
           blocks m' = (blocks m)(blk p := Some slots') \<and> length slots' = length slots \<and>
           (\<forall>j. j < i \<or> n \<le> j \<longrightarrow> slots' ! j = slots ! j) \<and>
           (\<forall>j. i \<le> j \<and> j < n \<longrightarrow> slots' ! j = None) \<and>
           n_alloc m' = n_alloc m \<and> n_ctor m' = n_ctor m \<and>
           log m' = log m @ map (\<lambda>j. Destroy (ptr_add p j)) [i ..< n]"
  using assms
proof (induction p i n m arbitrary: slots rule: destroy_loop.induct)
  case (1 p i n m)
  show ?case
  proof (cases "i < n")
    case False
    then show ?thesis
      using "1.prems" by (subst destroy_loop.simps) (auto intro!: exI [of _ slots])
  next
    case True
    let ?m1 = "m\<lparr>blocks := (blocks m)(blk p := Some (slots[i := None])), log := log m @ [Destroy (ptr_add p i)]\<rparr>"
    have d: "destroy (ptr_add p i) m = Some ?m1"
      using True "1.prems" by (simp add: destroy_def)
    have "\<exists>m' slots'. destroy_loop p (Suc i) n ?m1 = Some m' \<and>
           blocks m' = (blocks ?m1)(blk p := Some slots') \<and> length slots' = length (slots[i := None]) \<and>
           (\<forall>j. j < Suc i \<or> n \<le> j \<longrightarrow> slots' ! j = (slots[i := None]) ! j) \<and>
           (\<forall>j. Suc i \<le> j \<and> j < n \<longrightarrow> slots' ! j = None) \<and>
           n_alloc m' = n_alloc ?m1 \<and> n_ctor m' = n_ctor ?m1 \<and>
           log m' = log ?m1 @ map (\<lambda>j. Destroy (ptr_add p j)) [Suc i ..< n]"
      using True "1.prems" by (intro "1.IH" [OF True d]) auto
    then obtain m' slots' where r: "destroy_loop p (Suc i) n ?m1 = Some m'"
      "blocks m' = (blocks ?m1)(blk p := Some slots')" "length slots' = length slots"
      "\<forall>j. j < Suc i \<or> n \<le> j \<longrightarrow> slots' ! j = (slots[i := None]) ! j"
      "\<forall>j. Suc i \<le> j \<and> j < n \<longrightarrow> slots' ! j = None"
      "n_alloc m' = n_alloc m" "n_ctor m' = n_ctor m"
      "log m' = log m @ Destroy (ptr_add p i) # map (\<lambda>j. Destroy (ptr_add p j)) [Suc i ..< n]"
      by auto
    have a: "\<forall>j. j < i \<or> n \<le> j \<longrightarrow> slots' ! j = slots ! j"
      using r(4) True by auto
    have b: "\<forall>j. i \<le> j \<and> j < n \<longrightarrow> slots' ! j = None"
    proof (intro allI impI)
      fix j assume j: "i \<le> j \<and> j < n"
      show "slots' ! j = None"
      proof (cases "j = i")
        case True
        then show ?thesis using r(4) j "1.prems" by auto
      next
        case False
        then show ?thesis using r(5) j by auto
      qed
    qed
    show ?thesis
      using True d r(1,2,3,6,7,8) a b
      by (subst destroy_loop.simps) (auto simp: upt_conv_Cons)
  qed
qed

text \<open>
  One transfer writes the new slot and, when it moves, the old one; an exception changes
  no block. The transfer loop either fills the new slots \<open>[i, n)\<close> with the old
  values, or throws at some \<open>k\<close> with the new slots \<open>[i, k)\<close> constructed and, when
  it copies, with the old block as it was.
\<close>

lemma transfer_step:
  assumes "blk po \<noteq> blk pn" and "ofs po = 0" and "ofs pn = 0"
    and "blocks m (blk po) = Some so" and "blocks m (blk pn) = Some sn"
    and "i < length so" and "i < length sn" and "so ! i \<noteq> None"
  shows "case construct_move_if_noexcept E (ptr_add pn i) (ptr_add po i) m of
           UB \<Rightarrow> False
         | Throw e m' \<Rightarrow> \<not> is_nothrow_move_constructible E \<and> blocks m' = blocks m \<and>
               n_alloc m' = n_alloc m
         | Ok m' \<Rightarrow> \<exists>so'. blocks m' = (blocks m)(blk pn := Some (sn[i := so ! i]), blk po := Some so') \<and>
               length so' = length so \<and> so' ! i \<noteq> None \<and> (\<forall>j. j \<noteq> i \<longrightarrow> so' ! j = so ! j) \<and>
               (\<not> is_nothrow_move_constructible E \<and> is_copy_constructible E \<longrightarrow> so' = so) \<and>
               n_alloc m' = n_alloc m"
proof -
  obtain x where x: "so ! i = Some x"
    using assms(8) by auto
  have s: "slot_at m (ptr_add po i) = Some x"
    using assms x by (simp add: slot_at_def)
  show ?thesis
  proof (cases "\<not> is_nothrow_move_constructible E \<and> is_copy_constructible E")
    case True
    have "(blocks m)(blk pn := Some (sn[i := Some x]), blk po := Some so) =
          (blocks m)(blk pn := Some (sn[i := Some x]))"
      using assms(1,4) by (intro ext) simp
    then show ?thesis
      using True assms s x
      by (auto simp: construct_move_if_noexcept_def construct_def intro!: exI [of _ so])
  next
    case False
    then show ?thesis
      using assms s x
      by (auto simp: construct_move_if_noexcept_def construct_def
               intro!: exI [of _ "so[i := Some (moved_from E x)]"])
  qed
qed


lemma transfer_loop_blocks:
  assumes "blk po \<noteq> blk pn" and "ofs po = 0" and "ofs pn = 0"
    and "blocks m (blk po) = Some so" and "blocks m (blk pn) = Some sn"
    and "n \<le> length so" and "n \<le> length sn"
    and "\<forall>j. i \<le> j \<and> j < n \<longrightarrow> so ! j \<noteq> None"
  shows "case transfer_loop E pn po i n m of
           UB \<Rightarrow> False
         | Throw e (k, m') \<Rightarrow> i \<le> k \<and> k < n \<and> \<not> is_nothrow_move_constructible E \<and>
             (\<exists>so' sn'. blocks m' = (blocks m)(blk pn := Some sn', blk po := Some so') \<and>
                length so' = length so \<and> length sn' = length sn \<and>
                (\<forall>j. i \<le> j \<and> j < k \<longrightarrow> sn' ! j \<noteq> None) \<and>
                (\<forall>j. j < i \<longrightarrow> sn' ! j = sn ! j) \<and>
                (is_copy_constructible E \<longrightarrow> so' = so) \<and> n_alloc m' = n_alloc m)
         | Ok m' \<Rightarrow>
             (\<exists>so' sn'. blocks m' = (blocks m)(blk pn := Some sn', blk po := Some so') \<and>
                length so' = length so \<and> length sn' = length sn \<and>
                (\<forall>j. i \<le> j \<and> j < n \<longrightarrow> sn' ! j = so ! j) \<and>
                (\<forall>j. j < i \<or> n \<le> j \<longrightarrow> sn' ! j = sn ! j) \<and>
                (\<forall>j. (so' ! j \<noteq> None) = (so ! j \<noteq> None)) \<and> n_alloc m' = n_alloc m)"
  using assms
proof (induction E pn po i n m arbitrary: so sn rule: transfer_loop.induct)
  case (1 E pn po i n m)
  have triv: "(blocks m)(blk pn := Some sn, blk po := Some so) = blocks m"
    using "1.prems" by (intro ext) simp
  show ?case
  proof (cases "i < n")
    case False
    have "\<exists>so' sn'. blocks m = (blocks m)(blk pn := Some sn', blk po := Some so') \<and>
                length so' = length so \<and> length sn' = length sn \<and>
                (\<forall>j. i \<le> j \<and> j < n \<longrightarrow> sn' ! j = so ! j) \<and>
                (\<forall>j. j < i \<or> n \<le> j \<longrightarrow> sn' ! j = sn ! j) \<and>
                (\<forall>j. (so' ! j \<noteq> None) = (so ! j \<noteq> None)) \<and> n_alloc m = n_alloc m"
      using False triv by - (rule exI [of _ so], rule exI [of _ sn], auto)
    then show ?thesis
      using False by (subst transfer_loop.simps) simp
  next
    case True
    note step = transfer_step [of po pn m so sn i E]
    show ?thesis
    proof (cases "construct_move_if_noexcept E (ptr_add pn i) (ptr_add po i) m")
      case UB
      then show ?thesis
        using step True "1.prems" by auto
    next
      case (Throw e m1)
      have t: "\<not> is_nothrow_move_constructible E" "blocks m1 = blocks m" "n_alloc m1 = n_alloc m"
        using step True "1.prems" Throw by auto
      have "\<exists>so' sn'. blocks m1 = (blocks m)(blk pn := Some sn', blk po := Some so') \<and>
                length so' = length so \<and> length sn' = length sn \<and>
                (\<forall>j. i \<le> j \<and> j < i \<longrightarrow> sn' ! j \<noteq> None) \<and>
                (\<forall>j. j < i \<longrightarrow> sn' ! j = sn ! j) \<and>
                (is_copy_constructible E \<longrightarrow> so' = so) \<and> n_alloc m1 = n_alloc m"
        using t triv by - (rule exI [of _ so], rule exI [of _ sn], auto)
      then show ?thesis
        using True Throw t(1) by (subst transfer_loop.simps) simp
    next
      case (Ok m1)
      then obtain so1 where s1:
        "blocks m1 = (blocks m)(blk pn := Some (sn[i := so ! i]), blk po := Some so1)"
        "length so1 = length so" "so1 ! i \<noteq> None" "\<forall>j. j \<noteq> i \<longrightarrow> so1 ! j = so ! j"
        "\<not> is_nothrow_move_constructible E \<and> is_copy_constructible E \<longrightarrow> so1 = so"
        "n_alloc m1 = n_alloc m"
        using step True "1.prems" by auto
      have b1: "blocks m1 (blk po) = Some so1" "blocks m1 (blk pn) = Some (sn[i := so ! i])"
        using s1(1) "1.prems"(1) by auto
      have c1: "\<forall>j. Suc i \<le> j \<and> j < n \<longrightarrow> so1 ! j \<noteq> None"
        using s1(4) "1.prems" by auto
      have same: "\<And>sa sb. (blocks m1)(blk pn := Some sb, blk po := Some sa) =
                   (blocks m)(blk pn := Some sb, blk po := Some sa)"
        using s1(1) by (intro ext) simp
      have l1: "n \<le> length so1" "n \<le> length (sn[i := so ! i])"
        using s1(2) "1.prems" by auto
      note IH = "1.IH" [OF True Ok "1.prems"(1,2,3) b1(1) b1(2) l1 c1]
      have unf: "transfer_loop E pn po i n m = transfer_loop E pn po (Suc i) n m1"
        using True Ok by (subst transfer_loop.simps) simp
      show ?thesis
      proof (cases "transfer_loop E pn po (Suc i) n m1")
        case UB
        then show ?thesis
          using IH by simp
      next
        case (Throw e km)
        obtain k m' where km: "km = (k, m')"
          by (cases km)
        from IH Throw km obtain so' sn' where r:
          "Suc i \<le> k" "k < n" "\<not> is_nothrow_move_constructible E"
          "blocks m' = (blocks m1)(blk pn := Some sn', blk po := Some so')"
          "length so' = length so1" "length sn' = length (sn[i := so ! i])"
          "\<forall>j. Suc i \<le> j \<and> j < k \<longrightarrow> sn' ! j \<noteq> None"
          "\<forall>j. j < Suc i \<longrightarrow> sn' ! j = (sn[i := so ! i]) ! j"
          "is_copy_constructible E \<longrightarrow> so' = so1" "n_alloc m' = n_alloc m1"
          by auto
        have i_ok: "sn' ! i \<noteq> None"
          using r(8) True "1.prems" by auto
        have a: "\<forall>j. i \<le> j \<and> j < k \<longrightarrow> sn' ! j \<noteq> None"
        proof (intro allI impI)
          fix j assume "i \<le> j \<and> j < k"
          then show "sn' ! j \<noteq> None"
            using i_ok r(7) by (cases "j = i") auto
        qed
        have b: "\<forall>j. j < i \<longrightarrow> sn' ! j = sn ! j"
          using r(8) by auto
        have "\<exists>so' sn'. blocks m' = (blocks m)(blk pn := Some sn', blk po := Some so') \<and>
                length so' = length so \<and> length sn' = length sn \<and>
                (\<forall>j. i \<le> j \<and> j < k \<longrightarrow> sn' ! j \<noteq> None) \<and>
                (\<forall>j. j < i \<longrightarrow> sn' ! j = sn ! j) \<and>
                (is_copy_constructible E \<longrightarrow> so' = so) \<and> n_alloc m' = n_alloc m"
          using r(3,5,6,9,10) s1(2,5,6) a b same [of sn' so'] r(4)
          by - (rule exI [of _ so'], rule exI [of _ sn'], simp)
        then show ?thesis
          unfolding unf Throw km using r(1,2,3) by simp
      next
        case (Ok m')
        from IH Ok obtain so' sn' where r:
          "blocks m' = (blocks m1)(blk pn := Some sn', blk po := Some so')"
          "length so' = length so1" "length sn' = length (sn[i := so ! i])"
          "\<forall>j. Suc i \<le> j \<and> j < n \<longrightarrow> sn' ! j = so1 ! j"
          "\<forall>j. j < Suc i \<or> n \<le> j \<longrightarrow> sn' ! j = (sn[i := so ! i]) ! j"
          "\<forall>j. (so' ! j \<noteq> None) = (so1 ! j \<noteq> None)" "n_alloc m' = n_alloc m1"
          by auto
        have a: "\<forall>j. i \<le> j \<and> j < n \<longrightarrow> sn' ! j = so ! j"
        proof (intro allI impI)
          fix j assume j: "i \<le> j \<and> j < n"
          show "sn' ! j = so ! j"
          proof (cases "j = i")
            case True
            then show ?thesis using r(5) j "1.prems" by auto
          next
            case False
            then show ?thesis using r(4) s1(4) j by auto
          qed
        qed
        have b: "\<forall>j. j < i \<or> n \<le> j \<longrightarrow> sn' ! j = sn ! j"
          using r(5) True by auto
        have c: "\<forall>j. (so' ! j \<noteq> None) = (so ! j \<noteq> None)"
        proof
          fix j show "(so' ! j \<noteq> None) = (so ! j \<noteq> None)"
            using r(6) s1(3,4) "1.prems"(8) True by (cases "j = i") auto
        qed
        have "\<exists>so' sn'. blocks m' = (blocks m)(blk pn := Some sn', blk po := Some so') \<and>
                length so' = length so \<and> length sn' = length sn \<and>
                (\<forall>j. i \<le> j \<and> j < n \<longrightarrow> sn' ! j = so ! j) \<and>
                (\<forall>j. j < i \<or> n \<le> j \<longrightarrow> sn' ! j = sn ! j) \<and>
                (\<forall>j. (so' ! j \<noteq> None) = (so ! j \<noteq> None)) \<and> n_alloc m' = n_alloc m"
          using r(2,3,7) s1(2,6) a b c same [of sn' so'] r(1)
          by - (rule exI [of _ so'], rule exI [of _ sn'], simp)
        then show ?thesis
          unfolding unf Ok by simp
      qed
    qed
  qed
qed


text \<open>
  A well-formed vector has no storage, or a block of \<^verbatim>\<open>capacity_\<close> slots that is not
  the next one handed out.
\<close>

lemma wf_block_cases:
  assumes "wf v m"
  shows "(blocks m (blk (m_data v)) = None \<and> m_data v = nullptr \<and> m_size v = 0 \<and> m_capacity v = 0) \<or>
         (\<exists>so. blocks m (blk (m_data v)) = Some so \<and> m_data v \<noteq> nullptr \<and> blk (m_data v) \<noteq> 0 \<and>
               length so = m_capacity v \<and> (\<forall>i < m_capacity v. (so ! i \<noteq> None) = (i < m_size v)) \<and>
               0 < m_capacity v)"
proof (cases "blocks m (blk (m_data v))")
  case None
  then have "blk (m_data v) = 0" "ofs (m_data v) = 0" "m_size v = 0" "m_capacity v = 0"
    using assms by (auto simp: wf_def invariant_def)
  then show ?thesis
    using None by (cases "m_data v") (simp add: nullptr_def)
next
  case (Some so)
  have "blk (m_data v) \<noteq> 0"
  proof
    assume "blk (m_data v) = 0"
    then show False
      using Some assms by (simp add: wf_def memory_ok_def)
  qed
  then show ?thesis
    using Some assms by (auto simp: wf_def invariant_def nullptr_def)
qed

lemma wf_fresh:
  assumes "wf v m"
  shows "blocks m (Suc (n_alloc m)) = None" and "blk (m_data v) \<noteq> Suc (n_alloc m)"
proof -
  show f: "blocks m (Suc (n_alloc m)) = None"
    using assms by (simp add: wf_def memory_ok_def)
  show "blk (m_data v) \<noteq> Suc (n_alloc m)"
    using wf_block_cases [OF assms] f by (auto simp: nullptr_def)
qed

text \<open>
  \<^verbatim>\<open>reserve_more\<close> on a well-formed vector, with room for its elements in the new
  storage.
\<close>

lemma reserve_more_spec:
  assumes "wf v m" and "m_size v \<le> nc"
  shows "case reserve_more E nc v m of
           UB \<Rightarrow> False
         | Throw e (v', m') \<Rightarrow> v' = v \<and>
             (is_copy_constructible E \<or> is_nothrow_move_constructible E \<longrightarrow> blocks m' = blocks m)
         | Ok (v', m') \<Rightarrow> m_size v' = m_size v \<and> m_capacity v' = nc \<and>
             m_data v' = \<lparr>blk = Suc (n_alloc m), ofs = 0\<rparr> \<and>
             (0 < nc \<longrightarrow> invariant v' m') \<and> elems v' m' = elems v m \<and>
             (m_data v \<noteq> nullptr \<longrightarrow> blocks m' (blk (m_data v)) = None) \<and>
             memory_ok m' \<and>
             (\<forall>b. b \<noteq> blk (m_data v) \<and> b \<noteq> Suc (n_alloc m) \<longrightarrow> blocks m' b = blocks m b)"
proof (cases "alloc_fails E (n_alloc m)")
  case True
  then show ?thesis
    by (simp add: reserve_more_def allocate_def)
next
  case False
  define pn :: ptr where "pn = \<lparr>blk = Suc (n_alloc m), ofs = 0\<rparr>"
  define m1 where "m1 = m\<lparr>blocks := (blocks m)(blk pn := Some (replicate nc None)),
                  n_alloc := Suc (n_alloc m), log := log m @ [Allocate pn nc]\<rparr>"
  have al: "allocate E nc m = Ok (pn, m1)"
    using False by (simp add: allocate_def pn_def m1_def Let_def)
  have pn: "blk pn = Suc (n_alloc m)" "ofs pn = 0" "pn \<noteq> nullptr"
    by (simp_all add: pn_def nullptr_def)
  have fresh: "blocks m (blk pn) = None" "blk (m_data v) \<noteq> blk pn"
    using wf_fresh [OF assms(1)] pn by simp_all
  have o0: "ofs (m_data v) = 0"
    using assms(1) by (simp add: wf_def invariant_def)
  have bn1: "blocks m1 (blk pn) = Some (replicate nc None)"
    by (simp add: m1_def)
  have mo: "blocks m 0 = None" "\<forall>b > n_alloc m. blocks m b = None"
    using assms(1) by (simp_all add: wf_def memory_ok_def)
  from wf_block_cases [OF assms(1)] show ?thesis
  proof (elim disjE conjE exE)
    assume e: "blocks m (blk (m_data v)) = None" "m_data v = nullptr" "m_size v = 0" "m_capacity v = 0"
    have "reserve_more E nc v m = Ok (v\<lparr>m_data := pn, m_capacity := nc\<rparr>, m1)"
      using al e
      by (simp add: reserve_more_def transfer_loop.simps destroy_loop.simps deallocate_def)
    moreover have "invariant (v\<lparr>m_data := pn, m_capacity := nc\<rparr>) m1" if "0 < nc"
      using that e pn bn1 by (simp add: invariant_def)
    moreover have "elems (v\<lparr>m_data := pn, m_capacity := nc\<rparr>) m1 = elems v m"
      using e bn1 by (simp add: elems_def)
    moreover have "memory_ok m1"
      using mo pn(1) by (simp add: memory_ok_def m1_def)
    moreover have "\<forall>b. b \<noteq> blk (m_data v) \<and> b \<noteq> Suc (n_alloc m) \<longrightarrow> blocks m1 b = blocks m b"
      using pn(1) by (simp add: m1_def)
    ultimately show ?thesis
      using e by (simp add: pn_def)
  next
    fix so
    assume s: "blocks m (blk (m_data v)) = Some so" "m_data v \<noteq> nullptr" "blk (m_data v) \<noteq> 0"
      "length so = m_capacity v" "\<forall>i < m_capacity v. (so ! i \<noteq> None) = (i < m_size v)"
      "0 < m_capacity v"
    have sz: "m_size v \<le> m_capacity v"
      using assms(1) by (simp add: wf_def invariant_def)
    have bo1: "blocks m1 (blk (m_data v)) = Some so"
      using s(1) fresh(2) by (simp add: m1_def)
    have con: "\<forall>j. 0 \<le> j \<and> j < m_size v \<longrightarrow> so ! j \<noteq> None"
      using s(5) sz by auto
    note tl = transfer_loop_blocks [OF fresh(2) o0 pn(2) bo1 bn1, of "m_size v" 0 E]
    show ?thesis
    proof (cases "transfer_loop E pn (m_data v) 0 (m_size v) m1")
      case UB
      then show ?thesis
        using tl s(4) sz assms(2) con by simp
    next
      case (Throw e km)
      obtain k m2 where km: "km = (k, m2)"
        by (cases km)
      from tl Throw km s(4) sz assms(2) con obtain so' sn' where r:
        "k < m_size v" "\<not> is_nothrow_move_constructible E"
        "blocks m2 = (blocks m1)(blk pn := Some sn', blk (m_data v) := Some so')"
        "length sn' = nc" "\<forall>j. 0 \<le> j \<and> j < k \<longrightarrow> sn' ! j \<noteq> None"
        "is_copy_constructible E \<longrightarrow> so' = so"
        by auto
      have b2: "blocks m2 (blk pn) = Some sn'"
        using r(3) fresh(2) by simp
      from destroy_loop_blocks [OF b2 pn(2), of k 0] r(1,4,5) assms(2)
      obtain m3 sn'' where d: "destroy_loop pn 0 k m2 = Some m3"
        "blocks m3 = (blocks m2)(blk pn := Some sn'')"
        by auto
      define m4 where "m4 = m3\<lparr>blocks := (blocks m3)(blk pn := None),
                       log := log m3 @ [Deallocate pn nc]\<rparr>"
      have de: "deallocate pn nc m3 = Some m4"
        using d(2) pn by (simp add: deallocate_def m4_def)
      have res: "reserve_more E nc v m = Throw e (v, m4)"
        using al Throw km d(1) de by (simp add: reserve_more_def)
      have "blocks m4 = blocks m" if "is_copy_constructible E"
      proof
        fix b show "blocks m4 b = blocks m b"
          using that r(6) r(3) d(2) fresh s(1) by (simp add: m4_def m1_def)
      qed
      then show ?thesis
        using res r(2) by simp
    next
      case (Ok m2)
      from tl Ok s(4) sz assms(2) con obtain so' sn' where r:
        "blocks m2 = (blocks m1)(blk pn := Some sn', blk (m_data v) := Some so')"
        "length so' = length so" "length sn' = nc"
        "\<forall>j. 0 \<le> j \<and> j < m_size v \<longrightarrow> sn' ! j = so ! j"
        "\<forall>j. j < 0 \<or> m_size v \<le> j \<longrightarrow> sn' ! j = replicate nc None ! j"
        "\<forall>j. (so' ! j \<noteq> None) = (so ! j \<noteq> None)" "n_alloc m2 = n_alloc m1"
        by auto
      have b2: "blocks m2 (blk (m_data v)) = Some so'"
        using r(1) by simp
      have con': "\<forall>j. 0 \<le> j \<and> j < m_size v \<longrightarrow> so' ! j \<noteq> None"
        using con r(6) by simp
      from destroy_loop_blocks [OF b2 o0, of "m_size v" 0] r(2) s(4) sz con'
      obtain m3 so'' where d: "destroy_loop (m_data v) 0 (m_size v) m2 = Some m3"
        "blocks m3 = (blocks m2)(blk (m_data v) := Some so'')" "n_alloc m3 = n_alloc m2"
        by auto
      define m4 where "m4 = m3\<lparr>blocks := (blocks m3)(blk (m_data v) := None),
                       log := log m3 @ [Deallocate (m_data v) (m_capacity v)]\<rparr>"
      have de: "deallocate (m_data v) (m_capacity v) m3 = Some m4"
        using d(2) s(2) o0 by (simp add: deallocate_def m4_def)
      let ?v' = "v\<lparr>m_data := pn, m_capacity := nc\<rparr>"
      have res: "reserve_more E nc v m = Ok (?v', m4)"
        using al Ok d(1) de by (simp add: reserve_more_def)
      have b4: "blocks m4 (blk pn) = Some sn'" "blocks m4 (blk (m_data v)) = None"
        using r(1) d(2) fresh(2) by (simp_all add: m4_def)
      have slots: "\<forall>i < nc. (sn' ! i \<noteq> None) = (i < m_size v)"
      proof (intro allI impI)
        fix i assume i: "i < nc"
        show "(sn' ! i \<noteq> None) = (i < m_size v)"
        proof (cases "i < m_size v")
          case True
          then show ?thesis using r(4) con by simp
        next
          case False
          then show ?thesis using r(5) i by simp
        qed
      qed
      have inv: "invariant ?v' m4" if "0 < nc"
        using that b4(1) r(3) slots assms(2) pn(2) by (simp add: invariant_def)
      have "take (m_size v) sn' = take (m_size v) so"
        using r(3,4) s(4) sz assms(2) by (intro nth_take_lemma) auto
      then have el: "elems ?v' m4 = elems v m"
        using b4(1) s(1) by (simp add: elems_def)
      have fr: "\<forall>b. b \<noteq> blk (m_data v) \<and> b \<noteq> Suc (n_alloc m) \<longrightarrow> blocks m4 b = blocks m b"
        using r(1) d(2) pn(1) by (simp add: m4_def m1_def)
      have na: "n_alloc m4 = Suc (n_alloc m)"
        using r(7) d(3) by (simp add: m4_def m1_def)
      have "blocks m4 b = None" if "Suc (n_alloc m) < b" for b
        using that fr mo(2) b4(2) by (cases "b = blk (m_data v)") auto
      moreover have "blocks m4 0 = None"
        using fr mo(1) s(3) by simp
      ultimately have mem: "memory_ok m4"
        using na by (simp add: memory_ok_def)
      show ?thesis
        using res inv el b4(2) mem fr by (simp add: pn_def)
    qed
  qed
qed

text \<open>
  The catch block of \<^verbatim>\<open>reserve_more\<close>: when the transfer throws at \<open>k\<close>, the \<open>k\<close>
  elements constructed in the new storage are destroyed, the new storage is released and
  the exception leaves with the vector as it was.
\<close>

lemma allocate_Ok:
  assumes "allocate E n m = Ok (p, m1)"
  shows "p = \<lparr>blk = Suc (n_alloc m), ofs = 0\<rparr>"
    and "m1 = m\<lparr>blocks := (blocks m)(Suc (n_alloc m) := Some (replicate n None)),
                 n_alloc := Suc (n_alloc m), log := log m @ [Allocate p n]\<rparr>"
  using assms by (auto simp: allocate_def Let_def split: if_splits)

lemma reserve_more_rollback:
  assumes "wf v m" and "m_size v \<le> nc"
    and al: "allocate E nc m = Ok (pn, m1)"
    and tl: "transfer_loop E pn (m_data v) 0 (m_size v) m1 = Throw e (k, m2)"
  shows "\<exists>m'. reserve_more E nc v m = Throw e (v, m') \<and> k < m_size v \<and>
           \<not> is_nothrow_move_constructible E \<and> blocks m' (blk pn) = None \<and>
           (is_copy_constructible E \<longrightarrow> blocks m' = blocks m) \<and>
           log m' = log m2 @ map (\<lambda>j. Destroy (ptr_add pn j)) [0 ..< k] @ [Deallocate pn nc]"
proof -
  note a = allocate_Ok [OF al]
  have pn: "blk pn = Suc (n_alloc m)" "ofs pn = 0" "pn \<noteq> nullptr"
    using a(1) by (simp_all add: nullptr_def)
  have fresh: "blocks m (blk pn) = None" "blk (m_data v) \<noteq> blk pn"
    using wf_fresh [OF assms(1)] pn by simp_all
  have o0: "ofs (m_data v) = 0"
    using assms(1) by (simp add: wf_def invariant_def)
  have bn1: "blocks m1 (blk pn) = Some (replicate nc None)"
    using a(2) pn(1) by simp
  have b1: "\<And>b. b \<noteq> blk pn \<Longrightarrow> blocks m1 b = blocks m b"
    using a(2) pn(1) by simp
  have "m_size v \<noteq> 0"
  proof
    assume "m_size v = 0"
    then show False
      using tl by (simp add: transfer_loop.simps)
  qed
  with wf_block_cases [OF assms(1)] obtain so where s:
    "blocks m (blk (m_data v)) = Some so" "length so = m_capacity v"
    "\<forall>i < m_capacity v. (so ! i \<noteq> None) = (i < m_size v)"
    by auto
  have sz: "m_size v \<le> m_capacity v"
    using assms(1) by (simp add: wf_def invariant_def)
  have bo1: "blocks m1 (blk (m_data v)) = Some so"
    using s(1) fresh(2) b1 by simp
  have con: "\<forall>j. 0 \<le> j \<and> j < m_size v \<longrightarrow> so ! j \<noteq> None"
    using s(3) sz by auto
  from transfer_loop_blocks [OF fresh(2) o0 pn(2) bo1 bn1, of "m_size v" 0 E]
    tl s(2) sz assms(2) con
  obtain so' sn' where r:
    "k < m_size v" "\<not> is_nothrow_move_constructible E"
    "blocks m2 = (blocks m1)(blk pn := Some sn', blk (m_data v) := Some so')"
    "length sn' = nc" "\<forall>j. 0 \<le> j \<and> j < k \<longrightarrow> sn' ! j \<noteq> None"
    "is_copy_constructible E \<longrightarrow> so' = so"
    by auto
  have b2: "blocks m2 (blk pn) = Some sn'"
    using r(3) fresh(2) by simp
  from destroy_loop_blocks [OF b2 pn(2), of k 0] r(1,4,5) assms(2)
  obtain m3 sn'' where d: "destroy_loop pn 0 k m2 = Some m3"
    "blocks m3 = (blocks m2)(blk pn := Some sn'')"
    "log m3 = log m2 @ map (\<lambda>j. Destroy (ptr_add pn j)) [0 ..< k]"
    by auto
  define m4 where "m4 = m3\<lparr>blocks := (blocks m3)(blk pn := None),
                   log := log m3 @ [Deallocate pn nc]\<rparr>"
  have de: "deallocate pn nc m3 = Some m4"
    using d(2) pn by (simp add: deallocate_def m4_def)
  have res: "reserve_more E nc v m = Throw e (v, m4)"
    using al tl d(1) de by (simp add: reserve_more_def)
  have "blocks m4 = blocks m" if "is_copy_constructible E"
  proof
    fix b show "blocks m4 b = blocks m b"
      using that r(6) r(3) d(2) fresh s(1) b1 [of b] by (simp add: m4_def)
  qed
  moreover have "blocks m4 (blk pn) = None"
    by (simp add: m4_def)
  moreover have "log m4 = log m2 @ map (\<lambda>j. Destroy (ptr_add pn j)) [0 ..< k] @ [Deallocate pn nc]"
    using d(3) by (simp add: m4_def)
  ultimately show ?thesis
    using res r(1,2) by blast
qed

text \<open>
  An exception is \<^verbatim>\<open>std::bad_alloc\<close> from an allocation that fails, or comes from a
  constructor call that fails.
\<close>

lemma allocate_Throw:
  assumes "allocate E n m = Throw e m'"
  shows "e = Bad_alloc \<and> alloc_fails E (n_alloc m)"
  using assms by (auto simp: allocate_def Let_def split: if_splits)

lemma construct_Throw:
  assumes "construct E nothrow p x m = Throw e m'"
  shows "e = Ctor_failure \<and> ctor_fails E (n_ctor m)"
  using assms by (auto simp: construct_def split: option.splits if_splits)

lemma construct_move_if_noexcept_Throw:
  assumes "construct_move_if_noexcept E dst src m = Throw e m'"
  shows "e = Ctor_failure \<and> ctor_fails E (n_ctor m)"
  using assms
  by (auto simp: construct_move_if_noexcept_def dest: construct_Throw
           split: option.splits if_splits outcome.splits)

lemma transfer_loop_Throw:
  assumes "transfer_loop E pn po i n m = Throw e km"
  shows "e = Ctor_failure \<and> (\<exists>c. ctor_fails E c)"
  using assms
proof (induction E pn po i n m rule: transfer_loop.induct)
  case (1 E pn po i n m)
  from "1.prems" have lt: "i < n"
    by (subst (asm) transfer_loop.simps) (simp split: if_splits)
  show ?case
  proof (cases "construct_move_if_noexcept E (ptr_add pn i) (ptr_add po i) m")
    case (Ok m1)
    then have "transfer_loop E pn po (Suc i) n m1 = Throw e km"
      using "1.prems" lt by (subst (asm) transfer_loop.simps) simp
    then show ?thesis
      by (rule "1.IH" [OF lt Ok])
  next
    case (Throw e' m1)
    then have "e' = e"
      using "1.prems" lt by (subst (asm) transfer_loop.simps) simp
    then show ?thesis
      using construct_move_if_noexcept_Throw [OF Throw] by auto
  next
    case UB
    then show ?thesis
      using "1.prems" lt by (subst (asm) transfer_loop.simps) simp
  qed
qed


lemma reserve_more_Throw:
  assumes "reserve_more E nc v m = Throw e s"
  shows "(e = Bad_alloc \<and> alloc_fails E (n_alloc m)) \<or> (e = Ctor_failure \<and> (\<exists>c. ctor_fails E c))"
proof (cases "allocate E nc m")
  case (Ok pm)
  obtain pn m1 where pm: "pm = (pn, m1)"
    by (cases pm)
  show ?thesis
  proof (cases "transfer_loop E pn (m_data v) 0 (m_size v) m1")
    case (Throw e' km)
    then have "e' = e"
      using assms Ok pm
      by (cases km) (simp add: reserve_more_def split: option.splits)
    then show ?thesis
      using transfer_loop_Throw [OF Throw] by simp
  qed (use assms Ok pm in \<open>simp_all add: reserve_more_def split: option.splits\<close>)
next
  case (Throw e' m1)
  then show ?thesis
    using assms allocate_Throw [OF Throw] by (simp add: reserve_more_def)
next
  case UB
  then show ?thesis
    using assms by (simp add: reserve_more_def)
qed


section \<open>Iterators, move construction, resize to the same length\<close>

text \<open>
  C6. \<^verbatim>\<open>cend()\<close> is the cursor at the start of the storage: it equals \<^verbatim>\<open>cbegin()\<close>
  and compares equal to \<^verbatim>\<open>begin()\<close>, and for a vector that is not empty it compares
  unequal to \<^verbatim>\<open>end()\<close>, the cursor one past the last element.
\<close>

theorem cend_is_begin:
  "cend v = cbegin v \<and> ConstIterator_eq (cend v) (cbegin v) \<and>
   ConstIterator_eq_Iterator (cend v) (Vector_begin v) \<and>
   (0 < m_size v \<longrightarrow> ConstIterator_ne_Iterator (cend v) (Vector_end v))"
proof -
  have "m_data v \<noteq> ptr_add (m_data v) (m_size v)" if "0 < m_size v"
  proof
    assume "m_data v = ptr_add (m_data v) (m_size v)"
    then have "ofs (m_data v) = ofs (ptr_add (m_data v) (m_size v))"
      by simp
    then show False
      using that by simp
  qed
  then show ?thesis
    by (simp add: cend_def cbegin_def Vector_begin_def Vector_end_def ConstIterator_eq_def
        ConstIterator_eq_Iterator_def ConstIterator_ne_Iterator_def)
qed

theorem cend_is_begin_witness:
  "0 < m_size vector_12 \<and> cend vector_12 = cbegin vector_12 \<and>
   ConstIterator_ne_Iterator (cend vector_12) (Vector_end vector_12) \<and>
   Vector_end vector_12 = Iterator \<lparr>blk = 1, ofs = 2\<rparr> \<and>
   cend vector_12 = ConstIterator \<lparr>blk = 1, ofs = 0\<rparr>"
  using cend_is_begin [of vector_12]
  by (simp add: vector_12_def cend_def cbegin_def Vector_end_def ptr_add_def)

text \<open>
  C7. After \<^verbatim>\<open>Vector B(std::move(A))\<close>, \<open>B\<close> has the storage, length and capacity that
  \<open>A\<close> had, and so its elements, and \<open>A\<close> has length 0, capacity 0 and no storage.
\<close>

theorem move_constructor_steals:
  "m_data (fst (Vector_move a)) = m_data a \<and> m_size (fst (Vector_move a)) = m_size a \<and>
   m_capacity (fst (Vector_move a)) = m_capacity a \<and>
   elems (fst (Vector_move a)) m = elems a m \<and>
   m_size (snd (Vector_move a)) = 0 \<and> m_capacity (snd (Vector_move a)) = 0 \<and>
   m_data (snd (Vector_move a)) = nullptr \<and> elems (snd (Vector_move a)) m = []"
  by (simp add: Vector_move_def elems_def split: option.split)

text \<open>
  C10. \<^verbatim>\<open>resize(count)\<close> and \<^verbatim>\<open>resize(count, value)\<close> with \<open>count\<close> the current
  length return with the vector and the memory as they were: no field changes and no
  call reaches the allocator.
\<close>

theorem resize_to_same_length:
  "resize E (m_size v) v m = Ok (v, m) \<and> resize_value E (m_size v) val v m = Ok (v, m)"
  by (simp add: resize_def resize_value_def resize_with_def)

section \<open>Appending to a vector of capacity 1\<close>

text \<open>
  C1. The class invariant does not survive two appends to an empty vector. The first
  append leaves length 1 and capacity 1; the second computes the new capacity
  \<open>1 * 3 div 2 = 1\<close>, reallocates to one slot, and constructs the second element at
  index 1, outside the storage; the length it goes on to set, 2, exceeds the capacity.
\<close>

theorem second_append_outside_storage:
  "\<exists>v1 m1 v2 m2.
     push_back int_env (Val 1) Vector fresh_memory = Ok (v1, m1) \<and>
     m_size v1 = 1 \<and> m_capacity v1 = 1 \<and>
     reserve_more int_env (m_capacity v1 * 3 div 2) v1 m1 = Ok (v2, m2) \<and>
     m_size v2 = 1 \<and> m_capacity v2 = 1 \<and> blocks m2 (blk (m_data v2)) = Some [Some 1] \<and>
     m_capacity v2 < m_size v2 + 1 \<and>
     construct int_env False (ptr_add (m_data v2) (m_size v2)) 2 m2 = UB \<and>
     push_back int_env (Val 2) v1 m1 = UB"
  by (simp add: eval_defs)

text \<open>
  C2. Three appends of 1, 2, 3 to an empty vector do not end with length 3 and capacity
  at least 3: the capacity is 1 after the first append and the second append has
  undefined behaviour.
\<close>

theorem three_appends_undefined:
  "and_then (and_then (push_back int_env (Val 1) Vector fresh_memory)
      (\<lambda>(v, m). push_back int_env (Val 2) v m)) (\<lambda>(v, m). push_back int_env (Val 3) v m) = UB \<and>
   (\<exists>v m. push_back int_env (Val 1) Vector fresh_memory = Ok (v, m) \<and> m_capacity v = 1 \<and>
      emplace_back int_env (Val 2) v m = UB)"
  by (simp add: eval_defs)

section \<open>Sized constructors\<close>

text \<open>
  C5. When the second of two element constructions throws, \<^verbatim>\<open>Vector(2, value)\<close> and
  \<^verbatim>\<open>Vector(2)\<close> release the storage and rethrow, and the element constructed at
  index 0 is never destroyed: no \<open>Destroy\<close> reaches the allocator.
\<close>

theorem sized_constructors_skip_destroy:
  "(\<exists>m'. Vector_n_value (throwing_copy_env 1) 2 (Val 7) fresh_memory = Throw Ctor_failure m' \<and>
      log m' = [Allocate \<lparr>blk = 1, ofs = 0\<rparr> 2, Construct \<lparr>blk = 1, ofs = 0\<rparr>,
                Deallocate \<lparr>blk = 1, ofs = 0\<rparr> 2]) \<and>
   (\<exists>m'. Vector_n (throwing_copy_env 1) 2 fresh_memory = Throw Ctor_failure m' \<and>
      log m' = [Allocate \<lparr>blk = 1, ofs = 0\<rparr> 2, Construct \<lparr>blk = 1, ofs = 0\<rparr>,
                Deallocate \<lparr>blk = 1, ofs = 0\<rparr> 2])"
  by (simp add: eval_defs)

section \<open>Appending at full capacity\<close>

text \<open>
  Constructing at \<^verbatim>\<open>data_ + size_\<close>: inside the storage when the length is below the
  capacity, outside of it when they are equal.
\<close>

lemma construct_trailing:
  assumes "invariant v1 m1"
  shows "case construct E False (ptr_add (m_data v1) (m_size v1)) x m1 of
           UB \<Rightarrow> m_size v1 = m_capacity v1
         | Throw e m2 \<Rightarrow> m_size v1 < m_capacity v1 \<and> blocks m2 = blocks m1
         | Ok m2 \<Rightarrow> m_size v1 < m_capacity v1 \<and>
             elems (v1\<lparr>m_size := m_size v1 + 1\<rparr>) m2 = elems v1 m1 @ [Some x] \<and>
             invariant (v1\<lparr>m_size := m_size v1 + 1\<rparr>) m2"
proof (cases "blocks m1 (blk (m_data v1))")
  case None
  then show ?thesis
    using assms by (simp add: construct_def invariant_def)
next
  case (Some sn)
  then have i: "m_size v1 \<le> m_capacity v1" "ofs (m_data v1) = 0" "length sn = m_capacity v1"
    "\<forall>i < m_capacity v1. (sn ! i \<noteq> None) = (i < m_size v1)" "0 < m_capacity v1"
    using assms by (simp_all add: invariant_def)
  show ?thesis
  proof (cases "m_size v1 < m_capacity v1")
    case False
    then show ?thesis
      using Some i by (simp add: construct_def)
  next
    case True
    have t: "take (Suc (m_size v1)) (sn[m_size v1 := Some x]) = take (m_size v1) sn @ [Some x]"
      using True i(3) by (simp add: take_Suc_conv_app_nth)
    have c: "\<forall>j < m_capacity v1. ((sn[m_size v1 := Some x]) ! j \<noteq> None) = (j < Suc (m_size v1))"
    proof (intro allI impI)
      fix j assume "j < m_capacity v1"
      then show "((sn[m_size v1 := Some x]) ! j \<noteq> None) = (j < Suc (m_size v1))"
        using i(3,4) True by (cases "j = m_size v1") auto
    qed
    show ?thesis
      using True Some i(2,3,5) t c
      by (simp add: construct_def elems_def invariant_def)
  qed
qed

text \<open>
  On a well-formed vector with length equal to capacity, and for an argument that is not
  a reference into the memory, \<^verbatim>\<open>emplace_back\<close> first runs the reallocation to
  \<open>max 1 (capacity * 3 div 2)\<close> slots; this is stated where the product in
  \<^verbatim>\<open>double\<close> is exact and the new capacity is at most \<^verbatim>\<open>max_size()\<close>. When the
  reallocation throws, which takes a
  failing allocation or constructor call, \<^verbatim>\<open>emplace_back\<close> leaves by that exception
  with the fields of the vector as they were. Otherwise the call ends as the construction
  at \<^verbatim>\<open>data_ + size_\<close> ends: with the length one more and the new element last, by an
  exception with the length and the elements unchanged, or, when the capacity was 1 and
  is 1 again, outside the storage.
\<close>

lemma emplace_back_value_at_capacity:
  assumes "wf v m" and "m_size v = m_capacity v"
    and "m_capacity v * 3 < 2 ^ 53" and "max 1 (m_capacity v * 3 div 2) \<le> max_size E"
  shows "case reserve_more E (max 1 (m_capacity v * 3 div 2)) v m of
           UB \<Rightarrow> False
         | Throw e s \<Rightarrow>
             emplace_back E (Val x) v m = Throw e s \<and> fst s = v \<and>
             (alloc_fails E (n_alloc m) \<or> (\<exists>c. ctor_fails E c))
         | Ok (v1, m1) \<Rightarrow>
             m_capacity v1 = max 1 (m_capacity v * 3 div 2) \<and> m_size v1 = m_size v \<and>
             elems v1 m1 = elems v m \<and>
             (case construct E False (ptr_add (m_data v1) (m_size v1)) x m1 of
                UB \<Rightarrow> m_capacity v = 1 \<and> emplace_back E (Val x) v m = UB
              | Throw e m2 \<Rightarrow>
                  emplace_back E (Val x) v m = Throw e (v1, m2) \<and> elems v1 m2 = elems v m \<and>
                  ctor_fails E (n_ctor m1)
              | Ok m2 \<Rightarrow>
                  emplace_back E (Val x) v m = Ok (v1\<lparr>m_size := m_size v + 1\<rparr>, m2) \<and>
                  elems (v1\<lparr>m_size := m_size v + 1\<rparr>) m2 = elems v m @ [Some x])"
proof -
  let ?nc = "max 1 (m_capacity v * 3 div 2)"
  have nc: "(if m_capacity v = 0 then 1 else m_capacity v * 3 div 2) = ?nc"
    by auto
  have le: "m_size v \<le> ?nc" and pos: "0 < ?nc"
    using assms(2) by auto
  have eb: "emplace_back E (Val x) v m =
      (case reserve_more E ?nc v m of
         Throw e s \<Rightarrow> Throw e s
       | UB \<Rightarrow> UB
       | Ok (v1, m1) \<Rightarrow>
           (case construct E False (ptr_add (m_data v1) (m_size v1)) x m1 of
              Throw e m2 \<Rightarrow> Throw e (v1, m2)
            | UB \<Rightarrow> UB
            | Ok m2 \<Rightarrow> Ok (v1\<lparr>m_size := m_size v1 + 1\<rparr>, m2)))"
    using assms(2) nc by (simp add: emplace_back_def read_arg_def split: outcome.split)
  note rm = reserve_more_spec [OF assms(1) le, of E]
  show ?thesis
  proof (cases "reserve_more E ?nc v m")
    case UB
    then show ?thesis using rm by simp
  next
    case (Throw e s)
    then show ?thesis using rm eb reserve_more_Throw [OF Throw] by (cases s) auto
  next
    case (Ok s)
    obtain v1 m1 where s: "s = (v1, m1)"
      by (cases s)
    from rm Ok s pos have r: "m_size v1 = m_size v" "m_capacity v1 = ?nc" "invariant v1 m1"
      "elems v1 m1 = elems v m"
      by auto
    note ct = construct_trailing [OF r(3), where E = E and x = x]
    have e1: "emplace_back E (Val x) v m =
        (case construct E False (ptr_add (m_data v1) (m_size v1)) x m1 of
              Throw e m2 \<Rightarrow> Throw e (v1, m2)
            | UB \<Rightarrow> UB
            | Ok m2 \<Rightarrow> Ok (v1\<lparr>m_size := m_size v1 + 1\<rparr>, m2))"
      using eb Ok s by simp
    have "(case construct E False (ptr_add (m_data v1) (m_size v1)) x m1 of
                UB \<Rightarrow> m_capacity v = 1 \<and> emplace_back E (Val x) v m = UB
              | Throw e m2 \<Rightarrow>
                  emplace_back E (Val x) v m = Throw e (v1, m2) \<and> elems v1 m2 = elems v m \<and>
                  ctor_fails E (n_ctor m1)
              | Ok m2 \<Rightarrow>
                  emplace_back E (Val x) v m = Ok (v1\<lparr>m_size := m_size v + 1\<rparr>, m2) \<and>
                  elems (v1\<lparr>m_size := m_size v + 1\<rparr>) m2 = elems v m @ [Some x])"
    proof (cases "construct E False (ptr_add (m_data v1) (m_size v1)) x m1")
      case UB
      then have "m_size v = ?nc"
        using ct r(1,2) by simp
      then have "m_capacity v = 1"
        using assms(2) by (auto simp: max_def split: if_splits)
      then show ?thesis
        using UB e1 by simp
    next
      case (Throw e m2)
      then have "blocks m2 = blocks m1"
        using ct by simp
      then have "elems v1 m2 = elems v1 m1"
        by (simp add: elems_def)
      then show ?thesis
        using Throw e1 r(4) construct_Throw [OF Throw] by simp
    next
      case (Ok m2)
      then show ?thesis
        using ct e1 r(1,4) by simp
    qed
    then show ?thesis
      using Ok s r by simp
  qed
qed

text \<open>
  C3. With length equal to capacity, \<^verbatim>\<open>emplace_back\<close> does not always grow the
  capacity, construct the new last element from its argument and then increment the
  length. After one append the length and the capacity are 1; the new capacity
  \<open>max 1 (1 * 3 div 2)\<close> is 1, the reallocation leaves the capacity at 1, and the
  construction of the second element is outside the storage. And at length and capacity
  2, an argument that refers to the first element of the vector refers to released
  storage when the construction reads it, after the reallocation.
\<close>

theorem emplace_back_full_undefined:
  "(\<exists>v1 m1 v2 m2.
      push_back int_env (Val 1) Vector fresh_memory = Ok (v1, m1) \<and>
      m_size v1 = m_capacity v1 \<and> max 1 (m_capacity v1 * 3 div 2) = 1 \<and>
      reserve_more int_env (max 1 (m_capacity v1 * 3 div 2)) v1 m1 = Ok (v2, m2) \<and>
      m_capacity v2 = m_capacity v1 \<and> m_size v2 = m_capacity v2 \<and>
      emplace_back int_env (Val 2) v1 m1 = UB) \<and>
   m_size vector_12 = m_capacity vector_12 \<and>
   read_arg memory_12 (At (ptr_add (m_data vector_12) 0)) = Some 1 \<and>
   (\<exists>v2 m2.
      reserve_more int_env (max 1 (m_capacity vector_12 * 3 div 2)) vector_12 memory_12 =
        Ok (v2, m2) \<and>
      m_capacity v2 = 3 \<and> read_arg m2 (At (ptr_add (m_data vector_12) 0)) = None) \<and>
   emplace_back int_env (At (ptr_add (m_data vector_12) 0)) vector_12 memory_12 = UB"
  by (simp add: eval_defs)

section \<open>Failure during a reallocation\<close>

text \<open>
  C4 (as amended). Let the element type be copy-constructible, or its move constructor be
  \<^verbatim>\<open>noexcept\<close>, and let the new capacity be at most \<^verbatim>\<open>max_size()\<close>, so that the
  byte count of the allocation does not wrap. On a well-formed vector, when the transfer
  of an element into the new storage throws, at index \<open>k\<close>, \<^verbatim>\<open>reserve_more\<close> leaves by
  that exception with the fields of the vector unchanged and every block of the memory
  as it was before the call: the \<open>k\<close> elements constructed in the new storage have been
  destroyed and the new storage released, and the elements of the vector have the values
  they had. Every
  public operation that reallocates (\<^verbatim>\<open>reserve\<close>, \<^verbatim>\<open>emplace_back\<close>, both
  \<^verbatim>\<open>resize\<close>, \<^verbatim>\<open>shrink_to_fit\<close>) leaves by the same exception in the same state;
  for \<^verbatim>\<open>emplace_back\<close> this is stated where the new capacity it computes in
  \<^verbatim>\<open>double\<close> is exact.
\<close>

theorem failed_transfer_is_rolled_back:
  assumes "wf v m" and "m_size v \<le> new_capacity" and "new_capacity \<le> max_size E"
    and "is_copy_constructible E \<or> is_nothrow_move_constructible E"
    and "allocate E new_capacity m = Ok (new_data, m1)"
    and "transfer_loop E new_data (m_data v) 0 (m_size v) m1 = Throw e (k, m2)"
  shows "\<exists>m'. reserve_more E new_capacity v m = Throw e (v, m') \<and> k < m_size v \<and>
           blocks m' = blocks m \<and> elems v m' = elems v m \<and>
           log m' = log m2 @ map (\<lambda>j. Destroy (ptr_add new_data j)) [0 ..< k] @
                      [Deallocate new_data new_capacity] \<and>
           (m_capacity v < new_capacity \<longrightarrow> reserve E new_capacity v m = Throw e (v, m')) \<and>
           (m_size v = m_capacity v \<and> m_capacity v * 3 < 2 ^ 53 \<and>
            new_capacity = (if m_capacity v = 0 then 1 else m_capacity v * 3 div 2) \<longrightarrow>
              emplace_back E x v m = Throw e (v, m')) \<and>
           (m_size v < new_capacity \<and> m_capacity v < new_capacity \<longrightarrow>
              resize E new_capacity v m = Throw e (v, m') \<and>
              resize_value E new_capacity val v m = Throw e (v, m')) \<and>
           (m_size v < m_capacity v \<and> new_capacity = m_size v \<longrightarrow>
              shrink_to_fit E v m = Throw e (v, m'))"
proof -
  from reserve_more_rollback [OF assms(1,2,5,6)] assms(4) obtain m' where r:
    "reserve_more E new_capacity v m = Throw e (v, m')" "k < m_size v" "blocks m' = blocks m"
    "log m' = log m2 @ map (\<lambda>j. Destroy (ptr_add new_data j)) [0 ..< k] @
                [Deallocate new_data new_capacity]"
    by auto
  have "elems v m' = elems v m"
    using r(3) by (simp add: elems_def)
  moreover have "reserve E new_capacity v m = Throw e (v, m')" if "m_capacity v < new_capacity"
    using that r(1) by (simp add: reserve_def)
  moreover have "emplace_back E x v m = Throw e (v, m')"
    if "m_size v = m_capacity v"
      and "new_capacity = (if m_capacity v = 0 then 1 else m_capacity v * 3 div 2)"
    using that r(1) by (simp add: emplace_back_def)
  moreover have "resize_with E y new_capacity v m = Throw e (v, m')"
    if "m_size v < new_capacity" and "m_capacity v < new_capacity" for y
    using that r(1) by (simp add: resize_with_def)
  moreover have "shrink_to_fit E v m = Throw e (v, m')"
    if "m_size v < m_capacity v" and "new_capacity = m_size v"
    using that r(1,2) by (simp add: shrink_to_fit_def)
  ultimately show ?thesis
    using r by (auto simp: resize_def resize_value_def)
qed

theorem failed_transfer_is_rolled_back_witness:
  "wf vector_12 memory_12 \<and> m_size vector_12 \<le> 4 \<and> 4 \<le> max_size (throwing_copy_env 3) \<and>
   is_copy_constructible (throwing_copy_env 3) \<and>
   (\<exists>m1 m2. allocate (throwing_copy_env 3) 4 memory_12 = Ok (\<lparr>blk = 2, ofs = 0\<rparr>, m1) \<and>
      transfer_loop (throwing_copy_env 3) \<lparr>blk = 2, ofs = 0\<rparr> (m_data vector_12) 0
        (m_size vector_12) m1 = Throw Ctor_failure (1, m2)) \<and>
   (\<exists>m'. reserve (throwing_copy_env 3) 4 vector_12 memory_12 = Throw Ctor_failure (vector_12, m') \<and>
      blocks m' = blocks memory_12 \<and> elems vector_12 m' = [Some 1, Some 2] \<and>
      log m' = log memory_12 @
        [Allocate \<lparr>blk = 2, ofs = 0\<rparr> 4, Construct \<lparr>blk = 2, ofs = 0\<rparr>,
         Destroy \<lparr>blk = 2, ofs = 0\<rparr>, Deallocate \<lparr>blk = 2, ofs = 0\<rparr> 4])"
proof -
  let ?E = "throwing_copy_env 3"
  let ?p = "\<lparr>blk = 2, ofs = 0\<rparr>"
  obtain m1 where al: "allocate ?E 4 memory_12 = Ok (?p, m1)"
    and l1: "log m1 = log memory_12 @ [Allocate ?p 4]"
    by (simp add: eval_defs)
  obtain m2 where tl: "transfer_loop ?E ?p (m_data vector_12) 0 (m_size vector_12) m1 =
      Throw Ctor_failure (1, m2)"
    and l2: "log m2 = log m1 @ [Construct ?p]"
    using allocate_Ok(2) [OF al] by (simp add: eval_defs)
  have c: "is_copy_constructible ?E"
    by (simp add: throwing_copy_env_def int_env_def)
  have s: "m_size vector_12 \<le> 4" "m_capacity vector_12 < 4"
    by (simp_all add: vector_12_def)
  have b: "4 \<le> max_size ?E"
    by (simp add: max_size_def SIZE_MAX_def throwing_copy_env_def int_env_def)
  have e: "elems vector_12 memory_12 = [Some 1, Some 2]"
    by (simp add: elems_def vector_12_def memory_12_def)
  from failed_transfer_is_rolled_back [OF wf_vector_12 s(1) b disjI1 [OF c] al tl] s(2) e l1 l2
  have "\<exists>m'. reserve ?E 4 vector_12 memory_12 = Throw Ctor_failure (vector_12, m') \<and>
      blocks m' = blocks memory_12 \<and> elems vector_12 m' = [Some 1, Some 2] \<and>
      log m' = log memory_12 @
        [Allocate ?p 4, Construct ?p, Destroy ?p, Deallocate ?p 4]"
    by (auto simp: ptr_add_def)
  then show ?thesis
    using wf_vector_12 s(1) b c al tl by blast
qed

text \<open>
  For a move-only element type whose move constructor may throw, the transfer moves:
  when the move of the second element throws, the first element of the vector is left
  in its moved-from state, and the value it had is destroyed with the new storage.
\<close>

theorem move_only_transfer_failure_changes_element:
  "(\<exists>m1 m2. allocate (move_only_env 3) 4 memory_12 = Ok (\<lparr>blk = 2, ofs = 0\<rparr>, m1) \<and>
      transfer_loop (move_only_env 3) \<lparr>blk = 2, ofs = 0\<rparr> (m_data vector_12) 0
        (m_size vector_12) m1 = Throw Ctor_failure (1, m2)) \<and>
   (\<exists>m'. reserve (move_only_env 3) 4 vector_12 memory_12 = Throw Ctor_failure (vector_12, m') \<and>
      elems vector_12 memory_12 = [Some 1, Some 2] \<and> elems vector_12 m' = [Some 0, Some 2])"
  by (simp add: eval_defs elems_def)

section \<open>Copy assignment\<close>







section \<open>Shrinking\<close>

text \<open>
  The storage of a well-formed vector whose capacity is its length, and not 0, is a block
  that holds its elements and nothing else.
\<close>

lemma invariant_full_block:
  assumes "invariant v m" and "m_capacity v = m_size v" and "0 < m_size v"
  shows "blocks m (blk (m_data v)) = Some (elems v m)"
  using assms by (auto simp: invariant_def elems_def split: option.splits)

text \<open>
  C9. On a well-formed vector \<^verbatim>\<open>shrink_to_fit\<close> has no undefined behaviour. When it
  returns, the vector is well formed again with the capacity equal to the length, and the
  length and the elements are those of before: a vector that is not empty has a block of
  exactly that many slots, holding those elements. When the capacity exceeded the length
  the former storage is released and the vector has another one; when it did not,
  nothing has changed; and no other block of the memory is touched. A vector of length 0
  is left with capacity 0, a null \<^verbatim>\<open>data_\<close> and its former storage released. The call
  returns unless the allocation or a constructor call fails; the exception then leaves
  the fields as they were.
\<close>

theorem shrink_to_fit_exact:
  assumes "wf v m"
  shows "case shrink_to_fit E v m of
           UB \<Rightarrow> False
         | Throw e (v', m') \<Rightarrow>
             v' = v \<and> (alloc_fails E (n_alloc m) \<or> (\<exists>c. ctor_fails E c))
         | Ok (v', m') \<Rightarrow>
             m_capacity v' = m_size v' \<and> m_size v' = m_size v \<and> elems v' m' = elems v m \<and>
             wf v' m' \<and>
             (0 < m_size v \<longrightarrow> blocks m' (blk (m_data v')) = Some (elems v m)) \<and>
             (m_size v < m_capacity v \<longrightarrow>
                blocks m' (blk (m_data v)) = None \<and> m_data v' \<noteq> m_data v) \<and>
             (m_size v = m_capacity v \<longrightarrow> v' = v \<and> m' = m) \<and>
             (\<forall>b. b \<noteq> blk (m_data v) \<and> b \<noteq> blk (m_data v') \<longrightarrow> blocks m' b = blocks m b) \<and>
             (m_size v = 0 \<longrightarrow>
                m_capacity v' = 0 \<and> m_data v' = nullptr \<and> blocks m' (blk (m_data v)) = None)"
proof (cases "m_size v < m_capacity v")
  case False
  then have eq: "m_capacity v = m_size v"
    using assms by (simp add: wf_def invariant_def)
  have r: "shrink_to_fit E v m = Ok (v, m)"
    using False by (simp add: shrink_to_fit_def)
  have z: "m_data v = nullptr \<and> blocks m (blk (m_data v)) = None" if "m_size v = 0"
    using wf_block_cases [OF assms] that eq by auto
  have inv: "invariant v m"
    using assms by (simp add: wf_def)
  have f: "blocks m (blk (m_data v)) = Some (elems v m)" if "0 < m_size v"
    using invariant_full_block [OF inv eq that] .
  show ?thesis
    using r eq assms z f by auto
next
  case True
  with wf_block_cases [OF assms] obtain so where s:
    "blocks m (blk (m_data v)) = Some so" "m_data v \<noteq> nullptr" "blk (m_data v) \<noteq> 0"
    by auto
  have o0: "ofs (m_data v) = 0" and b0: "blocks m 0 = None"
    and fr: "\<forall>b > n_alloc m. blocks m b = None"
    using assms by (simp_all add: wf_def invariant_def memory_ok_def)
  show ?thesis
  proof (cases "m_size v = 0")
    case z: True
    let ?v' = "v\<lparr>m_data := nullptr, m_capacity := 0\<rparr>"
    let ?m' = "m\<lparr>blocks := (blocks m)(blk (m_data v) := None),
               log := log m @ [Deallocate (m_data v) (m_capacity v)]\<rparr>"
    have r: "shrink_to_fit E v m = Ok (?v', ?m')"
      using True z s o0 by (simp add: shrink_to_fit_def deallocate_def)
    have e: "elems ?v' ?m' = elems v m"
      using z s b0 by (simp add: elems_def nullptr_def)
    have i: "invariant ?v' ?m'"
      using z s(3) b0 by (simp add: invariant_def nullptr_def)
    have mo: "memory_ok ?m'"
      using b0 fr by (simp add: memory_ok_def)
    show ?thesis
      using r e i mo z True s(2) by (simp add: wf_def)
  next
    case nz: False
    have eq: "shrink_to_fit E v m = reserve_more E (m_size v) v m"
      using True nz by (simp add: shrink_to_fit_def)
    note rm = reserve_more_spec [OF assms, of "m_size v" E]
    show ?thesis
    proof (cases "reserve_more E (m_size v) v m")
      case UB
      then show ?thesis using rm by simp
    next
      case (Throw e s')
      then show ?thesis
        using rm eq reserve_more_Throw [OF Throw] by (cases s') auto
    next
      case (Ok s')
      obtain v' m' where s': "s' = (v', m')"
        by (cases s')
      from rm Ok s' nz s(2) have r: "m_size v' = m_size v" "m_capacity v' = m_size v"
        "m_data v' = \<lparr>blk = Suc (n_alloc m), ofs = 0\<rparr>" "invariant v' m'"
        "elems v' m' = elems v m" "blocks m' (blk (m_data v)) = None" "memory_ok m'"
        "\<forall>b. b \<noteq> blk (m_data v) \<and> b \<noteq> Suc (n_alloc m) \<longrightarrow> blocks m' b = blocks m b"
        by auto
      have "blk (m_data v') \<noteq> blk (m_data v)"
        using r(3) wf_fresh(2) [OF assms] by simp
      then have ne: "m_data v' \<noteq> m_data v"
        by auto
      have full: "blocks m' (blk (m_data v')) = Some (elems v m)"
        using invariant_full_block [OF r(4)] r(1,2,5) nz by simp
      show ?thesis
        using eq Ok s' r ne full True nz by (simp add: wf_def)
    qed
  qed
qed

theorem shrink_to_fit_exact_witness:
  "wf vector_12_slack memory_12_slack \<and> m_capacity vector_12_slack = 4 \<and>
   m_data vector_12_slack = \<lparr>blk = 1, ofs = 0\<rparr> \<and>
   blocks memory_12_slack 1 = Some [Some 1, Some 2, None, None] \<and>
   elems vector_12_slack memory_12_slack = [Some 1, Some 2] \<and>
   (\<exists>v' m'. shrink_to_fit int_env vector_12_slack memory_12_slack = Ok (v', m') \<and>
      m_capacity v' = 2 \<and> m_size v' = 2 \<and> elems v' m' = [Some 1, Some 2] \<and> wf v' m' \<and>
      m_data v' = \<lparr>blk = 2, ofs = 0\<rparr> \<and> blocks m' 2 = Some [Some 1, Some 2] \<and>
      blocks m' 1 = None)"
proof -
  have e: "elems vector_12_slack memory_12_slack = [Some 1, Some 2]"
    and d: "m_data vector_12_slack = \<lparr>blk = 1, ofs = 0\<rparr>" "m_capacity vector_12_slack = 4"
      "m_size vector_12_slack = 2"
    and b: "blocks memory_12_slack 1 = Some [Some 1, Some 2, None, None]"
    by (simp_all add: elems_def vector_12_slack_def memory_12_slack_def vector_12_def)
  obtain v' m' where r: "shrink_to_fit int_env vector_12_slack memory_12_slack = Ok (v', m')"
    and d': "m_data v' = \<lparr>blk = 2, ofs = 0\<rparr>"
    by (simp add: eval_defs vector_12_slack_def memory_12_slack_def)
  from shrink_to_fit_exact [OF wf_vector_12_slack, of int_env] r e d d'
  have "m_capacity v' = 2 \<and> m_size v' = 2 \<and> elems v' m' = [Some 1, Some 2] \<and> wf v' m' \<and>
      blocks m' 2 = Some [Some 1, Some 2] \<and> blocks m' 1 = None"
    by simp
  then show ?thesis
    using wf_vector_12_slack e d b r d' by blast
qed

end
